theory Spec2Isabelle
  imports Main "HOL-Library.Sublist" "HOL-Library.Multiset"
begin

section \<open>Annoyances consent storage\<close>

text \<open>
  Filter identifiers are JavaScript numbers; they are modelled as \<open>int\<close>.
  A thrown \<open>Error\<close> is a value carrying its message.
\<close>

datatype error = Error string

definition createNotInitializedError :: error where
  "createNotInitializedError = Error ''annoyances consent is not initialized''"

text \<open>
  The body of \<open>filterIds.forEach\<close> in \<open>AnnoyancesConsentStorage.addFilterIds\<close>:
  an id is pushed to the end of \<open>this.data\<close> unless \<open>this.data.includes(id)\<close>.
\<close>

fun pushMissing :: "int list \<Rightarrow> int list \<Rightarrow> int list" where
  "pushMissing dat [] = dat"
| "pushMissing dat (i # ids) =
     pushMissing (if i \<in> set dat then dat else dat @ [i]) ids"

text \<open>
  \<open>AnnoyancesConsentStorage.addFilterIds\<close> on the cached \<open>this.data\<close>
  (\<open>None\<close> is \<open>undefined\<close>; an empty array is truthy in JavaScript, so only
  \<open>undefined\<close> throws). The second \<open>if (!this.data)\<close> of the source cannot
  be reached with \<open>undefined\<close> data and is the inner \<open>case\<close>.
\<close>

definition AnnoyancesConsentStorage_addFilterIds ::
    "int list option \<Rightarrow> int list \<Rightarrow> error + int list option" where
  "AnnoyancesConsentStorage_addFilterIds dat filterIds =
     (case dat of
        None \<Rightarrow> Inl createNotInitializedError
      | Some d \<Rightarrow>
          (let d1 = (case Some d of None \<Rightarrow> [] | Some d' \<Rightarrow> d')
           in Inr (Some (pushMissing d1 filterIds))))"

subsection \<open>The string storage behind the consent API\<close>

text \<open>
  What the persistent storage holds under the consent key: nothing that is a string,
  a string that parses and validates to an array of numbers, or a string for which
  \<open>JSON.parse\<close> or the validator throws.
\<close>

datatype stored = NotAString | Json "int list" | Unparseable

text \<open>
  The storage singleton: the cached \<open>data\<close>, the persisted value, and the number
  of \<open>read()\<close> calls made so far (kept to observe when storage is read).
\<close>

record consent_storage =
  cache :: "int list option"
  persisted :: stored
  reads :: nat

text \<open>
  Modelled from the spec: \<open>StringStorage.setCache\<close> (the source file of the base
  class \<open>StringStorage\<close> is not part of the sources). It replaces the cached data
  and writes nothing to the persistent storage.
\<close>

definition setCache :: "int list \<Rightarrow> consent_storage \<Rightarrow> consent_storage" where
  "setCache d st = st\<lparr>cache := Some d\<rparr>"

text \<open>
  Modelled from the spec: \<open>StringStorage.setData\<close> (not part of the sources). It
  replaces the cached data and flushes it to the persistent storage with the call
  (write-through).
\<close>

definition setData :: "int list \<Rightarrow> consent_storage \<Rightarrow> consent_storage" where
  "setData d st = st\<lparr>cache := Some d, persisted := Json d\<rparr>"

text \<open>
  Modelled from the spec: \<open>StringStorage.read\<close> (not part of the sources). It returns
  the persisted value; the call is counted.
\<close>

definition read :: "consent_storage \<Rightarrow> stored \<times> consent_storage" where
  "read st = (persisted st, st\<lparr>reads := Suc (reads st)\<rparr>)"

text \<open>
  \<open>AnnoyancesConsentApi.getFromStorage\<close> (the same in both versions of the class):
  a parsed array is cached, anything else is replaced by the empty default, which is
  persisted; the \<open>catch\<close> branch is the \<open>Unparseable\<close> case.
\<close>

definition getFromStorage :: "consent_storage \<Rightarrow> int list \<times> consent_storage" where
  "getFromStorage st =
     (let (storageData, st1) = read st
      in case storageData of
           Json d \<Rightarrow> (d, setCache d st1)
         | NotAString \<Rightarrow> ([], setData [] st1)
         | Unparseable \<Rightarrow> ([], setData [] st1))"

definition reset :: "consent_storage \<Rightarrow> consent_storage" where
  "reset st = setData [] st"

subsection \<open>JavaScript sets of numbers\<close>

text \<open>
  A \<open>Set<number>\<close> keeps its members in insertion order; \<open>add\<close> of a member
  changes nothing. It is a list, and \<open>Array.from\<close> is the list itself.
\<close>

definition Set_add :: "int list \<Rightarrow> int \<Rightarrow> int list" where
  "Set_add s i = (if i \<in> set s then s else s @ [i])"

definition Set_addAll :: "int list \<Rightarrow> int list \<Rightarrow> int list" where
  "Set_addAll s ids = foldl Set_add s ids"

definition new_Set :: "int list \<Rightarrow> int list" where
  "new_Set ids = Set_addAll [] ids"

subsection \<open>The consent API whose set starts empty\<close>

text \<open>
  The state is the object's \<open>consentedFilterIds\<close> and the storage singleton. The
  constructor leaves the set empty.
\<close>

type_synonym eager_api = "int list \<times> consent_storage"

definition eager_new :: "consent_storage \<Rightarrow> eager_api" where
  "eager_new st = ([], st)"

definition eager_addFilterIds :: "int list \<Rightarrow> eager_api \<Rightarrow> eager_api" where
  "eager_addFilterIds filterIds api =
     (let (c, st) = api;
          (c1, st1) = (if length c = 0
                       then (let (ids, st') = getFromStorage st
                             in (Set_addAll c ids, st'))
                       else (c, st));
          c2 = Set_addAll c1 filterIds
      in (c2, setData c2 st1))"

definition eager_isConsentedFilter :: "int \<Rightarrow> eager_api \<Rightarrow> bool \<times> eager_api" where
  "eager_isConsentedFilter i api = (i \<in> set (fst api), api)"

subsection \<open>The consent API whose set starts as null\<close>

type_synonym lazy_api = "int list option \<times> consent_storage"

definition lazy_new :: "consent_storage \<Rightarrow> lazy_api" where
  "lazy_new st = (None, st)"

definition restoreConsentedFilterIds :: "lazy_api \<Rightarrow> lazy_api" where
  "restoreConsentedFilterIds api =
     (let (ids, st') = getFromStorage (snd api) in (Some (new_Set ids), st'))"

definition lazy_addFilterIds :: "int list \<Rightarrow> lazy_api \<Rightarrow> lazy_api" where
  "lazy_addFilterIds filterIds api =
     (let (c1, st1) = (if fst api = None then restoreConsentedFilterIds api else api);
          c2 = map_option (\<lambda>s. Set_addAll s filterIds) c1
      in (c2, setData (case c2 of None \<Rightarrow> [] | Some s \<Rightarrow> s) st1))"

definition lazy_isConsentedFilter :: "int \<Rightarrow> lazy_api \<Rightarrow> bool \<times> lazy_api" where
  "lazy_isConsentedFilter i api =
     (let (c1, st1) = (if fst api = None then restoreConsentedFilterIds api else api)
      in ((case c1 of None \<Rightarrow> False | Some s \<Rightarrow> i \<in> set s), (c1, st1)))"

text \<open>A call of either public operation, and a run of calls.\<close>

datatype consent_call = AddFilterIds "int list" | IsConsentedFilter int

fun lazy_call :: "consent_call \<Rightarrow> lazy_api \<Rightarrow> lazy_api" where
  "lazy_call (AddFilterIds ids) api = lazy_addFilterIds ids api"
| "lazy_call (IsConsentedFilter i) api = snd (lazy_isConsentedFilter i api)"

fun eager_call :: "consent_call \<Rightarrow> eager_api \<Rightarrow> eager_api" where
  "eager_call (AddFilterIds ids) api = eager_addFilterIds ids api"
| "eager_call (IsConsentedFilter i) api = snd (eager_isConsentedFilter i api)"

definition lazy_calls :: "consent_call list \<Rightarrow> lazy_api \<Rightarrow> lazy_api" where
  "lazy_calls cs api = foldl (\<lambda>a c. lazy_call c a) api cs"

definition eager_calls :: "consent_call list \<Rightarrow> eager_api \<Rightarrow> eager_api" where
  "eager_calls cs api = foldl (\<lambda>a c. eager_call c a) api cs"

text \<open>
  The consented set a tracker stands for: its in-memory set once materialized, and
  what storage holds before that (nothing readable counts as empty).
\<close>

definition storedIds :: "stored \<Rightarrow> int list" where
  "storedIds s = (case s of Json d \<Rightarrow> d | NotAString \<Rightarrow> [] | Unparseable \<Rightarrow> [])"

definition lazy_consented :: "lazy_api \<Rightarrow> int set" where
  "lazy_consented api =
     (case fst api of None \<Rightarrow> set (storedIds (persisted (snd api))) | Some s \<Rightarrow> set s)"

definition eager_consented :: "eager_api \<Rightarrow> int set" where
  "eager_consented api =
     (if fst api = [] then set (storedIds (persisted (snd api))) else set (fst api))"

definition emptyStorage :: consent_storage where
  "emptyStorage = \<lparr>cache = None, persisted = NotAString, reads = 0\<rparr>"

section \<open>Filter updates\<close>

subsection \<open>Data\<close>

text \<open>
  The record the version storage keeps for a filter. Times are milliseconds since the
  epoch and \<open>expires\<close> is in seconds; JavaScript numbers are modelled as \<open>int\<close>.
\<close>

record FilterVersionRecord =
  version :: string
  expires :: int
  lastUpdateTime :: int
  lastCheckTime :: int
  diffPath :: "string option"

type_synonym FilterVersionStorageData = "int \<rightharpoonup> FilterVersionRecord"

record FilterUpdateDetail =
  filterId :: int
  force :: bool

type_synonym FilterUpdateDetails = "FilterUpdateDetail list"

definition RECENTLY_CHECKED_FILTER_TIMEOUT_MS :: int where
  "RECENTLY_CHECKED_FILTER_TIMEOUT_MS = 1000 * 60 * 5"

text \<open>
  What the update functions change: the data of \<open>filterVersionStorage\<close>, and the
  numbers of calls so far of \<open>FiltersApi.loadMetadata\<close>, \<open>Engine.debounceUpdate\<close>
  and \<open>Log.error\<close>.
\<close>

record world =
  filterVersions :: FilterVersionStorageData
  metadataLoads :: nat
  engineUpdates :: nat
  loggedErrors :: nat

text \<open>
  How the promise of one filter's update settles: rejected, or fulfilled with the
  filter's metadata or with \<open>null\<close>.
\<close>

datatype 'm settled = Rejected | Fulfilled "'m option"

text \<open>
  What the update functions read from modules whose sources are not part of the
  sources, taken as parameters: the predicates \<open>CustomFilterApi.isCustomFilter\<close> and
  \<open>CommonFilterApi.isCommonFilter\<close>, the two \<open>updateFilter\<close> functions (each
  takes the task and the world and returns how its promise settles and the world it
  leaves), the constants \<open>DEFAULT_FILTERS_UPDATE_PERIOD\<close> and
  \<open>FiltersUpdateTime.Disabled\<close>, the settings \<open>DisableFiltering\<close> and
  \<open>FiltersUpdatePeriod\<close>, and \<open>FiltersApi.getInstalledAndEnabledFiltersIds()\<close>.
\<close>

record 'm env =
  isCustomFilter :: "int \<Rightarrow> bool"
  isCommonFilter :: "int \<Rightarrow> bool"
  customUpdateFilter :: "FilterUpdateDetail \<Rightarrow> world \<Rightarrow> 'm settled \<times> world"
  commonUpdateFilter :: "FilterUpdateDetail \<Rightarrow> world \<Rightarrow> 'm settled \<times> world"
  DEFAULT_FILTERS_UPDATE_PERIOD :: int
  FiltersUpdateTime_Disabled :: int
  DisableFiltering :: bool
  FiltersUpdatePeriod :: int
  installedAndEnabledFiltersIds :: "int list"

subsection \<open>Selections\<close>

text \<open>
  \<open>selectFiltersIdsToUpdate\<close>; \<open>now\<close> is the value of \<open>Date.now()\<close>.
\<close>

definition selectFiltersIdsToUpdate ::
    "'m env \<Rightarrow> FilterVersionStorageData \<Rightarrow> int \<Rightarrow> int list \<Rightarrow> int list" where
  "selectFiltersIdsToUpdate e filterVersions' now filterIds =
     filter (\<lambda>i.
        let isCustom = isCustomFilter e i;
            outdated = (case filterVersions' i of
                          Some filterVersion \<Rightarrow>
                            now - lastCheckTime filterVersion > RECENTLY_CHECKED_FILTER_TIMEOUT_MS
                        | None \<Rightarrow> True)
        in isCustom \<or> outdated) filterIds"

text \<open>
  \<open>filterVersion?.diffPath\<close> as a condition: the record exists and its \<open>diffPath\<close>
  is a string that is not empty (the empty string is falsy).
\<close>

definition hasDiffPath :: "FilterVersionStorageData \<Rightarrow> int \<Rightarrow> bool" where
  "hasDiffPath filterVersions' i =
     (case filterVersions' i of
        None \<Rightarrow> False
      | Some filterVersion \<Rightarrow>
          (case diffPath filterVersion of None \<Rightarrow> False | Some p \<Rightarrow> p \<noteq> []))"

definition selectFiltersWithDiffPath ::
    "FilterVersionStorageData \<Rightarrow> FilterUpdateDetails \<Rightarrow> FilterUpdateDetails" where
  "selectFiltersWithDiffPath filterVersions' filterUpdateDetails =
     map (\<lambda>filterData. filterData\<lparr>force := False\<rparr>)
       (filter (\<lambda>filterData. hasDiffPath filterVersions' (filterId filterData))
          filterUpdateDetails)"

text \<open>
  \<open>selectExpiredFilters\<close>; \<open>dflt\<close> is \<open>DEFAULT_FILTERS_UPDATE_PERIOD\<close>.
\<close>

definition isExpired :: "int \<Rightarrow> FilterVersionStorageData \<Rightarrow> int \<Rightarrow> int \<Rightarrow> int \<Rightarrow> bool" where
  "isExpired dflt filterVersions' now updatePeriod i =
     (case filterVersions' i of
        None \<Rightarrow> True
      | Some filterVersion \<Rightarrow>
          if updatePeriod = dflt
          then lastCheckTime filterVersion + expires filterVersion * 1000 \<le> now
          else lastCheckTime filterVersion + updatePeriod \<le> now)"

definition selectExpiredFilters ::
    "int \<Rightarrow> FilterVersionStorageData \<Rightarrow> int \<Rightarrow> FilterUpdateDetails \<Rightarrow> int
      \<Rightarrow> FilterUpdateDetails" where
  "selectExpiredFilters dflt filterVersions' now filterUpdateDetails updatePeriod =
     map (\<lambda>f. f\<lparr>force := True\<rparr>)
       (filter (\<lambda>d. isExpired dflt filterVersions' now updatePeriod (filterId d))
          filterUpdateDetails)"

subsection \<open>The map that merges the two selections\<close>

text \<open>
  A JavaScript \<open>Map\<close> keeps its keys in the order of their first insertion;
  \<open>set\<close> on a key it has replaces the value in place. \<open>values()\<close> follows that
  order.
\<close>

definition Map_has :: "(int \<times> 'v) list \<Rightarrow> int \<Rightarrow> bool" where
  "Map_has m k = (k \<in> set (map fst m))"

fun Map_set :: "(int \<times> 'v) list \<Rightarrow> int \<Rightarrow> 'v \<Rightarrow> (int \<times> 'v) list" where
  "Map_set [] k v = [(k, v)]"
| "Map_set ((k', v') # m) k v =
     (if k' = k then (k, v) # m else (k', v') # Map_set m k v)"

definition Map_values :: "(int \<times> 'v) list \<Rightarrow> 'v list" where
  "Map_values m = map snd m"

text \<open>The body and the whole of \<open>combinedFilters.forEach\<close> in \<open>autoUpdateFilters\<close>.\<close>

definition uniqueStep ::
    "(int \<times> FilterUpdateDetail) list \<Rightarrow> FilterUpdateDetail \<Rightarrow> (int \<times> FilterUpdateDetail) list" where
  "uniqueStep uniqueFiltersMap f =
     (if \<not> Map_has uniqueFiltersMap (filterId f) \<or> force f
      then Map_set uniqueFiltersMap (filterId f) f
      else uniqueFiltersMap)"

definition uniqueFilters :: "FilterUpdateDetails \<Rightarrow> FilterUpdateDetails" where
  "uniqueFilters combinedFilters = Map_values (foldl uniqueStep [] combinedFilters)"

text \<open>
  The task list \<open>filterUpdateDetailsToUpdate\<close> that \<open>autoUpdateFilters\<close> builds
  once it is past its two early returns.
\<close>

definition filterUpdateDetailsToUpdate ::
    "'m env \<Rightarrow> FilterVersionStorageData \<Rightarrow> int \<Rightarrow> bool \<Rightarrow> FilterUpdateDetails" where
  "filterUpdateDetailsToUpdate e filterVersions' now forceUpdate =
     (let installedAndEnabledFilters = installedAndEnabledFiltersIds e;
          details = map (\<lambda>i. \<lparr>filterId = i, force = forceUpdate\<rparr>) installedAndEnabledFilters
      in if \<not> forceUpdate
         then (let filtersWithDiffPath = selectFiltersWithDiffPath filterVersions' details;
                   expiredFilters = selectExpiredFilters (DEFAULT_FILTERS_UPDATE_PERIOD e)
                       filterVersions' now details (FiltersUpdatePeriod e);
                   combinedFilters = filtersWithDiffPath @ expiredFilters
               in uniqueFilters combinedFilters)
         else details)"

text \<open>
  The invariant of \<open>uniqueFiltersMap\<close>: its keys are distinct and every task is stored
  under its own filter id.
\<close>

definition keyed :: "(int \<times> FilterUpdateDetail) list \<Rightarrow> bool" where
  "keyed m = (distinct (map fst m) \<and> (\<forall>(k, v) \<in> set m. filterId v = k))"

text \<open>The map holds a forced task for filter \<open>i\<close>.\<close>

definition forced :: "(int \<times> FilterUpdateDetail) list \<Rightarrow> int \<Rightarrow> bool" where
  "forced m i = (\<exists>v. map_of m i = Some v \<and> force v)"

subsection \<open>Running the update tasks\<close>

text \<open>
  One update task: the custom or the common \<open>updateFilter\<close>, by the kind of filter.
\<close>

definition updateTask :: "'m env \<Rightarrow> FilterUpdateDetail \<Rightarrow> world \<Rightarrow> 'm settled \<times> world" where
  "updateTask e filterData w =
     (if isCustomFilter e (filterId filterData)
      then customUpdateFilter e filterData w
      else commonUpdateFilter e filterData w)"

text \<open>
  The tasks of \<open>updateFilters\<close> are all started and run concurrently; each pushes its
  metadata when it completes, so the order of \<open>updatedFiltersMetadata\<close> is the order
  in which the tasks complete, not the order of the task list. \<open>finish i\<close> is the time
  at which the task at position \<open>i\<close> of the list completes; the tasks, each with its
  position, are put in the order of these times (tasks with equal times stay in list
  order).
\<close>

definition completionOrder ::
    "(nat \<Rightarrow> nat) \<Rightarrow> FilterUpdateDetails \<Rightarrow> (nat \<times> FilterUpdateDetail) list" where
  "completionOrder finish filterUpdateDetails =
     sort_key (\<lambda>(i, d). finish i) (enumerate 0 filterUpdateDetails)"

text \<open>
  \<open>Promise.allSettled\<close> over the tasks: every task runs and settles, whatever the
  others did. The update of a task takes effect as one step when the task completes;
  finer interleavings of concurrently running tasks are not modelled. The result pairs
  each position with how its promise settled, in completion order.
\<close>

fun runUpdateTasks ::
    "'m env \<Rightarrow> (nat \<times> FilterUpdateDetail) list \<Rightarrow> world \<Rightarrow> (nat \<times> 'm settled) list \<times> world" where
  "runUpdateTasks e [] w = ([], w)"
| "runUpdateTasks e ((i, d) # ts) w =
     (let (r, w1) = updateTask e d w;
          (rs, w2) = runUpdateTasks e ts w1
      in ((i, r) # rs, w2))"

text \<open>What a settled task has pushed to \<open>updatedFiltersMetadata\<close>.\<close>

fun pushed :: "'m settled \<Rightarrow> 'm list" where
  "pushed (Fulfilled (Some filterMetadata)) = [filterMetadata]"
| "pushed (Fulfilled None) = []"
| "pushed Rejected = []"

fun isRejected :: "'m settled \<Rightarrow> bool" where
  "isRejected Rejected = True"
| "isRejected (Fulfilled _) = False"

text \<open>
  \<open>FiltersApi.loadMetadata(true)\<close>, whose source is not part of the sources: the call
  is counted and is taken to return; what it loads is not part of the world.
\<close>

definition loadMetadata :: "world \<Rightarrow> world" where
  "loadMetadata w = w\<lparr>metadataLoads := Suc (metadataLoads w)\<rparr>"

definition shouldLoadMetadata :: "'m env \<Rightarrow> FilterUpdateDetails \<Rightarrow> bool" where
  "shouldLoadMetadata e filterUpdateDetails =
     list_ex (\<lambda>filterUpdateDetail.
        force filterUpdateDetail \<and> isCommonFilter e (filterId filterUpdateDetail))
       filterUpdateDetails"

text \<open>The world in which the tasks of \<open>updateFilters\<close> start.\<close>

definition worldBeforeTasks :: "'m env \<Rightarrow> FilterUpdateDetails \<Rightarrow> world \<Rightarrow> world" where
  "worldBeforeTasks e filterUpdateDetails w =
     (if shouldLoadMetadata e filterUpdateDetails then loadMetadata w else w)"

text \<open>
  \<open>updateFilters\<close>. The array \<open>promises\<close> that \<open>Promise.allSettled\<close> resolves to
  is in the order of the task list; the rejected ones are logged.
\<close>

definition updateFilters ::
    "'m env \<Rightarrow> (nat \<Rightarrow> nat) \<Rightarrow> FilterUpdateDetails \<Rightarrow> world \<Rightarrow> 'm list \<times> world" where
  "updateFilters e finish filterUpdateDetails w =
     (let w1 = worldBeforeTasks e filterUpdateDetails w;
          (completed, w2) = runUpdateTasks e (completionOrder finish filterUpdateDetails) w1;
          updatedFiltersMetadata = concat (map (\<lambda>(i, r). pushed r) completed);
          promises = map snd (sort_key fst completed);
          w3 = w2\<lparr>loggedErrors := loggedErrors w2 + length (filter isRejected promises)\<rparr>
      in (updatedFiltersMetadata, w3))"

text \<open>
  Modelled from the spec: \<open>filterVersionStorage.refreshLastCheckTime\<close> (the version
  storage's source file is not part of the sources). It marks \<open>lastCheckTime = now\<close>
  on the record of every given filter; a filter with no record has no field to mark.
\<close>

fun refreshLastCheckTime ::
    "int list \<Rightarrow> int \<Rightarrow> FilterVersionStorageData \<Rightarrow> FilterVersionStorageData" where
  "refreshLastCheckTime [] now fv = fv"
| "refreshLastCheckTime (i # ids) now fv =
     refreshLastCheckTime ids now
       (case fv i of None \<Rightarrow> fv | Some r \<Rightarrow> fv(i \<mapsto> r\<lparr>lastCheckTime := now\<rparr>))"

definition debounceUpdate :: "world \<Rightarrow> world" where
  "debounceUpdate w = w\<lparr>engineUpdates := Suc (engineUpdates w)\<rparr>"

subsection \<open>The two entry points\<close>


definition autoUpdateFilters ::
    "'m env \<Rightarrow> (nat \<Rightarrow> nat) \<Rightarrow> bool \<Rightarrow> int \<Rightarrow> int \<Rightarrow> world \<Rightarrow> 'm list \<times> world" where
  "autoUpdateFilters e finish forceUpdate now nowR w =
     (let filteringDisabled = DisableFiltering e
      in if filteringDisabled \<and> \<not> forceUpdate then ([], w)
         else
           (let updatePeriod = FiltersUpdatePeriod e
            in if updatePeriod = FiltersUpdateTime_Disabled e \<and> \<not> forceUpdate then ([], w)
               else
                 (let details = filterUpdateDetailsToUpdate e (filterVersions w) now forceUpdate;
                      (updatedFilters, w1) = updateFilters e finish details w;
                      w2 = w1\<lparr>filterVersions :=
                              refreshLastCheckTime (map filterId details) nowR (filterVersions w1)\<rparr>;
                      w3 = (if length updatedFilters > 0 then debounceUpdate w2 else w2)
                  in (updatedFilters, w3))))"

subsection \<open>Assumptions on the two updateFilter functions\<close>




subsection \<open>A sample configuration\<close>

text \<open>
  Three installed built-in filters with patch feeds, last checked at time \<open>t\<close>; the
  update of filter 2 rejects and commits nothing, the update of any other filter
  stores a new record and yields the filter's id as its metadata.
\<close>

definition sampleRecord :: "int \<Rightarrow> FilterVersionRecord" where
  "sampleRecord t = \<lparr>version = ''1.0.0.0'', expires = 3600, lastUpdateTime = 0,
     lastCheckTime = t, diffPath = Some ''../patches/1/1-s-1700000000-3600.patch''\<rparr>"

definition sampleUpdateFilter :: "FilterUpdateDetail \<Rightarrow> world \<Rightarrow> int settled \<times> world" where
  "sampleUpdateFilter d w =
     (if filterId d = 2 then (Rejected, w)
      else (Fulfilled (Some (filterId d)),
            w\<lparr>filterVersions := (filterVersions w)(filterId d \<mapsto>
                 \<lparr>version = ''1.0.0.1'', expires = 3600, lastUpdateTime = 5000,
                  lastCheckTime = 5000, diffPath = None\<rparr>)\<rparr>))"

definition sampleEnv :: "int env" where
  "sampleEnv = \<lparr>isCustomFilter = (\<lambda>i. 1000 \<le> i), isCommonFilter = (\<lambda>i. i < 1000),
     customUpdateFilter = sampleUpdateFilter, commonUpdateFilter = sampleUpdateFilter,
     DEFAULT_FILTERS_UPDATE_PERIOD = - 1, FiltersUpdateTime_Disabled = 0,
     DisableFiltering = False, FiltersUpdatePeriod = - 1,
     installedAndEnabledFiltersIds = [1, 2, 3]\<rparr>"

definition sampleWorld :: world where
  "sampleWorld =
     \<lparr>filterVersions = [1 \<mapsto> sampleRecord 0, 2 \<mapsto> sampleRecord 0, 3 \<mapsto> sampleRecord 0],
      metadataLoads = 0, engineUpdates = 0, loggedErrors = 0\<rparr>"

text \<open>
  At time 1000000, filter 1 was checked four minutes ago and filter 3 long ago.
\<close>

definition recentWorld :: world where
  "recentWorld =
     \<lparr>filterVersions = [1 \<mapsto> sampleRecord (1000000 - 4 * 60 * 1000), 3 \<mapsto> sampleRecord 0],
      metadataLoads = 0, engineUpdates = 0, loggedErrors = 0\<rparr>"

lemmas sample_defs = sampleRecord_def sampleUpdateFilter_def sampleEnv_def sampleWorld_def
  recentWorld_def

lemmas consent_defs = lazy_addFilterIds_def lazy_new_def eager_addFilterIds_def eager_new_def
  emptyStorage_def restoreConsentedFilterIds_def getFromStorage_def read_def setData_def
  setCache_def new_Set_def Set_addAll_def Set_add_def Let_def

lemmas selection_defs = filterUpdateDetailsToUpdate_def selectFiltersWithDiffPath_def
  selectExpiredFilters_def hasDiffPath_def isExpired_def uniqueFilters_def uniqueStep_def
  Map_has_def Map_values_def selectFiltersIdsToUpdate_def
  RECENTLY_CHECKED_FILTER_TIMEOUT_MS_def

lemmas update_defs = updateFilters_def completionOrder_def worldBeforeTasks_def
  shouldLoadMetadata_def updateTask_def loadMetadata_def debounceUpdate_def

section \<open>Properties of the consent storage\<close>

lemma pushMissing_append:
  "\<exists>ys. pushMissing d ids = d @ ys \<and> distinct ys \<and> set ys = set ids - set d \<and> subseq ys ids"
proof (induction ids arbitrary: d)
  case Nil
  show ?case by simp
next
  case (Cons i ids)
  show ?case
  proof (cases "i \<in> set d")
    case True
    from Cons.IH [of d] obtain ys where
      ys: "pushMissing d ids = d @ ys" "distinct ys" "set ys = set ids - set d" "subseq ys ids"
      by blast
    from True ys have "set ys = set (i # ids) - set d" by auto
    moreover from ys have "subseq ys (i # ids)" by (simp add: list_emb_Cons)
    ultimately show ?thesis using True ys by (intro exI [of _ ys]) simp
  next
    case False
    from Cons.IH [of "d @ [i]"] obtain ys where
      ys: "pushMissing (d @ [i]) ids = (d @ [i]) @ ys" "distinct ys"
          "set ys = set ids - set (d @ [i])" "subseq ys ids"
      by blast
    from False ys have "set (i # ys) = set (i # ids) - set d" by auto
    moreover from ys have "distinct (i # ys)" by auto
    ultimately show ?thesis using False ys
      by (intro exI [of _ "i # ys"]) simp
  qed
qed

text \<open>
  C10. \<open>AnnoyancesConsentStorage.addFilterIds\<close> throws the error
  'annoyances consent is not initialized' when its data is not initialized, and
  materializes nothing; on initialized data it keeps the existing ids in their order
  and appends, once each and in input order, exactly the input ids not yet present.
\<close>

theorem AnnoyancesConsentStorage_addFilterIds_spec:
  "AnnoyancesConsentStorage_addFilterIds None ids
     = Inl (Error ''annoyances consent is not initialized'')
   \<and> (\<exists>ys. AnnoyancesConsentStorage_addFilterIds (Some d) ids = Inr (Some (d @ ys))
          \<and> distinct ys \<and> set ys = set ids - set d \<and> subseq ys ids)"
  using pushMissing_append [of d ids]
  by (auto simp: AnnoyancesConsentStorage_addFilterIds_def createNotInitializedError_def)

section \<open>Properties of the consent API\<close>

lemma set_Set_addAll: "set (Set_addAll s ids) = set s \<union> set ids"
  unfolding Set_addAll_def
  by (induction ids arbitrary: s) (auto simp: Set_add_def)

lemma Set_addAll_absorb: "set ids \<subseteq> set s \<Longrightarrow> Set_addAll s ids = s"
  unfolding Set_addAll_def
  by (induction ids arbitrary: s) (simp_all add: Set_add_def)

lemma setData_same: "cache st = Some m \<Longrightarrow> persisted st = Json m \<Longrightarrow> setData m st = st"
  by (simp add: setData_def)

lemma getFromStorage_ids: "fst (getFromStorage st) = storedIds (persisted st)"
  by (simp add: getFromStorage_def read_def storedIds_def split: stored.splits)

lemma getFromStorage_reads: "reads (snd (getFromStorage st)) = Suc (reads st)"
  by (simp add: getFromStorage_def read_def setCache_def setData_def split: stored.splits)

lemma lazy_addFilterIds_union:
  "\<exists>m st'. lazy_addFilterIds ids api = (Some m, st') \<and> persisted st' = Json m
      \<and> cache st' = Some m \<and> set m = lazy_consented api \<union> set ids"
proof (cases "fst api")
  case None
  then show ?thesis
    using getFromStorage_ids [of "snd api"]
    by (cases "getFromStorage (snd api)")
       (simp add: lazy_addFilterIds_def restoreConsentedFilterIds_def lazy_consented_def
        new_Set_def setData_def set_Set_addAll)
next
  case (Some s)
  then show ?thesis
    by (cases api) (simp add: lazy_addFilterIds_def lazy_consented_def setData_def set_Set_addAll)
qed

lemma eager_addFilterIds_union:
  "\<exists>m st'. eager_addFilterIds ids api = (m, st') \<and> persisted st' = Json m
      \<and> cache st' = Some m \<and> set m = eager_consented api \<union> set ids"
proof (cases "fst api = []")
  case True
  then show ?thesis
    using getFromStorage_ids [of "snd api"]
    by (cases api; cases "getFromStorage (snd api)")
       (simp add: eager_addFilterIds_def eager_consented_def setData_def set_Set_addAll Let_def)
next
  case False
  then show ?thesis
    by (cases api)
       (simp add: eager_addFilterIds_def eager_consented_def setData_def set_Set_addAll Let_def)
qed

lemma lazy_addFilterIds_idem:
  "lazy_addFilterIds ids (lazy_addFilterIds ids api) = lazy_addFilterIds ids api"
proof -
  from lazy_addFilterIds_union [of ids api] obtain m st' where
    r: "lazy_addFilterIds ids api = (Some m, st')" "persisted st' = Json m" "cache st' = Some m"
       "set m = lazy_consented api \<union> set ids"
    by blast
  then have "set ids \<subseteq> set m" by simp
  with r show ?thesis
    by (simp add: lazy_addFilterIds_def [of ids "(Some m, st')"] Set_addAll_absorb setData_same)
qed

lemma eager_addFilterIds_idem:
  "fst (eager_addFilterIds ids (eager_addFilterIds ids api)) = fst (eager_addFilterIds ids api)
   \<and> persisted (snd (eager_addFilterIds ids (eager_addFilterIds ids api)))
       = persisted (snd (eager_addFilterIds ids api))"
proof -
  from eager_addFilterIds_union [of ids api] obtain m st' where
    r: "eager_addFilterIds ids api = (m, st')" "persisted st' = Json m" "cache st' = Some m"
       "set m = eager_consented api \<union> set ids"
    by blast
  then have sub: "set ids \<subseteq> set m" by simp
  from eager_addFilterIds_union [of ids "(m, st')"] obtain m2 st2 where
    r2: "eager_addFilterIds ids (m, st') = (m2, st2)" "persisted st2 = Json m2"
    by blast
  have "m2 = m"
  proof (cases "m = []")
    case True
    with sub have "ids = []" by simp
    with True r r2(1) show ?thesis
      by (cases "getFromStorage st'")
         (simp add: eager_addFilterIds_def Let_def Set_addAll_def getFromStorage_def read_def
           setCache_def setData_def)
  next
    case False
    with r2(1) sub show ?thesis
      by (simp add: eager_addFilterIds_def Let_def Set_addAll_absorb)
  qed
  with r r2 show ?thesis by simp
qed

text \<open>
  C6. \<open>addFilterIds\<close> is additive and idempotent, in both versions of the API. Whatever
  the state, with \<open>S\<close> the consented set before the call (the in-memory set, or what
  storage holds when the set is not materialized yet), the call leaves an in-memory set
  whose members are those of \<open>S\<close> and the given ids, and has flushed that very set to
  storage; a second call with the same ids changes neither. From an empty storage,
  \<open>addFilterIds([1,2])\<close> then \<open>addFilterIds([2,3])\<close> persists \<open>[1,2,3]\<close>, and
  \<open>addFilterIds([1])\<close> twice persists \<open>[1]\<close>.
\<close>

theorem addFilterIds_additive:
  "(\<exists>m st'. lazy_addFilterIds ids api = (Some m, st') \<and> persisted st' = Json m
       \<and> set m = lazy_consented api \<union> set ids)
   \<and> (\<exists>m st'. eager_addFilterIds ids eapi = (m, st') \<and> persisted st' = Json m
       \<and> set m = eager_consented eapi \<union> set ids)
   \<and> lazy_addFilterIds ids (lazy_addFilterIds ids api) = lazy_addFilterIds ids api
   \<and> fst (eager_addFilterIds ids (eager_addFilterIds ids eapi)) = fst (eager_addFilterIds ids eapi)
   \<and> persisted (snd (eager_addFilterIds ids (eager_addFilterIds ids eapi)))
       = persisted (snd (eager_addFilterIds ids eapi))
   \<and> persisted (snd (lazy_addFilterIds [2, 3] (lazy_addFilterIds [1, 2] (lazy_new emptyStorage))))
       = Json [1, 2, 3]
   \<and> persisted (snd (lazy_addFilterIds [1] (lazy_addFilterIds [1] (lazy_new emptyStorage))))
       = Json [1]
   \<and> persisted (snd (eager_addFilterIds [2, 3] (eager_addFilterIds [1, 2] (eager_new emptyStorage))))
       = Json [1, 2, 3]
   \<and> persisted (snd (eager_addFilterIds [1] (eager_addFilterIds [1] (eager_new emptyStorage))))
       = Json [1]"
proof -
  have a: "\<exists>m st'. lazy_addFilterIds ids api = (Some m, st') \<and> persisted st' = Json m
       \<and> set m = lazy_consented api \<union> set ids"
    using lazy_addFilterIds_union [of ids api] by blast
  have b: "\<exists>m st'. eager_addFilterIds ids eapi = (m, st') \<and> persisted st' = Json m
       \<and> set m = eager_consented eapi \<union> set ids"
    using eager_addFilterIds_union [of ids eapi] by blast
  have c: "persisted (snd (lazy_addFilterIds [2, 3] (lazy_addFilterIds [1, 2] (lazy_new emptyStorage))))
       = Json [1, 2, 3]"
    by (simp add: consent_defs)
  have d: "persisted (snd (lazy_addFilterIds [1] (lazy_addFilterIds [1] (lazy_new emptyStorage))))
       = Json [1]"
    by (simp add: consent_defs)
  have e: "persisted (snd (eager_addFilterIds [2, 3] (eager_addFilterIds [1, 2] (eager_new emptyStorage))))
       = Json [1, 2, 3]"
    by (simp add: consent_defs)
  have f: "persisted (snd (eager_addFilterIds [1] (eager_addFilterIds [1] (eager_new emptyStorage))))
       = Json [1]"
    by (simp add: consent_defs)
  from a b c d e f lazy_addFilterIds_idem [of ids api] eager_addFilterIds_idem [of ids eapi]
  show ?thesis by simp
qed

subsection \<open>When storage is read\<close>

lemma lazy_call_materialized:
  "fst api \<noteq> None \<Longrightarrow>
     fst (lazy_call c api) \<noteq> None \<and> reads (snd (lazy_call c api)) = reads (snd api)"
  by (cases c; cases api) (auto simp: lazy_addFilterIds_def lazy_isConsentedFilter_def setData_def)

lemma lazy_call_first:
  "fst api = None \<Longrightarrow>
     fst (lazy_call c api) \<noteq> None \<and> reads (snd (lazy_call c api)) = Suc (reads (snd api))"
  using getFromStorage_reads [of "snd api"]
  by (cases c; cases api) (auto simp: lazy_addFilterIds_def lazy_isConsentedFilter_def setData_def
      restoreConsentedFilterIds_def split: prod.splits)

lemma lazy_calls_materialized:
  "fst api \<noteq> None \<Longrightarrow>
     fst (lazy_calls cs api) \<noteq> None \<and> reads (snd (lazy_calls cs api)) = reads (snd api)"
  unfolding lazy_calls_def
proof (induction cs arbitrary: api)
  case Nil
  then show ?case by simp
next
  case (Cons c cs)
  from lazy_call_materialized [OF Cons.prems, of c] Cons.IH [of "lazy_call c api"]
  show ?case by simp
qed

text \<open>
  The version of the API whose set starts as null reads storage exactly once, on the
  first call of either operation, whatever calls follow.
\<close>

lemma lazy_reads_storage_once:
  "cs \<noteq> [] \<Longrightarrow> reads (snd (lazy_calls cs (lazy_new st))) = Suc (reads st)"
proof (cases cs)
  case Nil
  assume "cs \<noteq> []"
  with Nil show ?thesis by simp
next
  case (Cons c cs')
  have n: "fst (lazy_new st) = None" by (simp add: lazy_new_def)
  from lazy_call_first [OF n, of c]
  have a: "fst (lazy_call c (lazy_new st)) \<noteq> None"
    and b: "reads (snd (lazy_call c (lazy_new st))) = Suc (reads st)"
    by (simp_all add: lazy_new_def)
  have "lazy_calls cs (lazy_new st) = lazy_calls cs' (lazy_call c (lazy_new st))"
    using Cons by (simp add: lazy_calls_def)
  with lazy_calls_materialized [OF a, of cs'] b show ?thesis by simp
qed

text \<open>
  C7. The version of the API whose set starts empty does not populate its set on first
  access: with \<open>[5]\<close> persisted, \<open>isConsentedFilter(5)\<close> as the first call returns
  false, reads nothing and leaves the set empty; and it does not read storage once only:
  two calls of \<open>addFilterIds([])\<close> over an empty persisted array read storage twice.
\<close>

theorem eager_consent_not_materialized_once:
  "eager_isConsentedFilter 5 (eager_new \<lparr>cache = None, persisted = Json [5], reads = 0\<rparr>)
     = (False, [], \<lparr>cache = None, persisted = Json [5], reads = 0\<rparr>)
   \<and> reads (snd (eager_calls [AddFilterIds [], AddFilterIds []]
        (eager_new \<lparr>cache = None, persisted = Json [], reads = 0\<rparr>))) = 2"
  by (simp add: eager_isConsentedFilter_def eager_new_def eager_calls_def eager_addFilterIds_def
      getFromStorage_def read_def setData_def setCache_def Set_addAll_def Set_add_def Let_def)

text \<open>
  C9. In the version of the API whose set starts empty, \<open>isConsentedFilter\<close> never
  reads storage, it leaves the whole state (the count of reads too) as it was; any run
  of \<open>isConsentedFilter\<close> calls on a new object leaves it new; and on a new object
  \<open>isConsentedFilter(id)\<close> is false whatever storage holds, also when \<open>id\<close> is
  persisted there.
\<close>

theorem eager_isConsentedFilter_never_reads:
  "snd (eager_isConsentedFilter i api) = api
   \<and> eager_calls (map IsConsentedFilter js) (eager_new st) = eager_new st
   \<and> fst (eager_isConsentedFilter i (eager_new st)) = False
   \<and> fst (eager_isConsentedFilter i (eager_new (st\<lparr>persisted := Json [i]\<rparr>))) = False"
proof -
  have "foldl (\<lambda>a c. eager_call c a) api (map IsConsentedFilter js) = api" for api
    by (induction js) (simp_all add: eager_isConsentedFilter_def)
  then show ?thesis
    by (simp add: eager_calls_def eager_isConsentedFilter_def eager_new_def)
qed

section \<open>Properties of the selections\<close>

text \<open>
  C1. For a filter that is in the list given to \<open>selectExpiredFilters\<close> and has a
  version record: with the update period equal to the sentinel
  \<open>DEFAULT_FILTERS_UPDATE_PERIOD\<close> it is selected iff
  \<open>lastCheckTime + expires * 1000 \<le> now\<close>, with any other update period iff
  \<open>lastCheckTime + updatePeriod \<le> now\<close>; and every selected task has
  \<open>force = true\<close>.
\<close>

theorem selectExpiredFilters_selects:
  assumes "d \<in> set ds" and "fv (filterId d) = Some r"
  shows "((\<exists>t \<in> set (selectExpiredFilters dflt fv now ds p). filterId t = filterId d)
          \<longleftrightarrow> (if p = dflt then lastCheckTime r + expires r * 1000 \<le> now
               else lastCheckTime r + p \<le> now))
       \<and> (\<forall>t \<in> set (selectExpiredFilters dflt fv now ds p). force t = True)"
proof -
  have "(\<exists>t \<in> set (selectExpiredFilters dflt fv now ds p). filterId t = filterId d)
        \<longleftrightarrow> (\<exists>x \<in> set ds. filterId x = filterId d \<and> isExpired dflt fv now p (filterId x))"
    by (auto simp: selectExpiredFilters_def)
  also have "\<dots> \<longleftrightarrow> isExpired dflt fv now p (filterId d)"
    using assms(1) by auto
  finally show ?thesis
    using assms(2) by (simp add: isExpired_def) (simp add: selectExpiredFilters_def)
qed

text \<open>
  The example of the spec: \<open>expires = 3600\<close> and a last check 3700 seconds ago is
  selected, with \<open>force = true\<close>; a last check 3500 seconds ago is not.
\<close>

theorem selectExpiredFilters_selects_witness:
  "\<lparr>filterId = 1, force = False\<rparr> \<in> set [\<lparr>filterId = 1, force = False\<rparr>]
   \<and> [1 \<mapsto> sampleRecord (10000000 - 3700 * 1000)] 1 = Some (sampleRecord (10000000 - 3700 * 1000))
   \<and> selectExpiredFilters (- 1) [1 \<mapsto> sampleRecord (10000000 - 3700 * 1000)] 10000000
        [\<lparr>filterId = 1, force = False\<rparr>] (- 1) = [\<lparr>filterId = 1, force = True\<rparr>]
   \<and> selectExpiredFilters (- 1) [1 \<mapsto> sampleRecord (10000000 - 3500 * 1000)] 10000000
        [\<lparr>filterId = 1, force = False\<rparr>] (- 1) = []"
  using selectExpiredFilters_selects [of "\<lparr>filterId = 1, force = False\<rparr>"
      "[\<lparr>filterId = 1, force = False\<rparr>]" "[1 \<mapsto> sampleRecord (10000000 - 3700 * 1000)]"
      "sampleRecord (10000000 - 3700 * 1000)" "- 1" 10000000 "- 1"]
  by (simp add: selectExpiredFilters_def isExpired_def sampleRecord_def)

text \<open>
  C4. \<open>selectFiltersIdsToUpdate\<close> keeps an id of its input iff the filter is custom
  or was last checked more than five minutes ago (a filter with no version record counts
  as never checked). A custom filter is kept whatever its \<open>lastCheckTime\<close>, a built-in
  filter checked four minutes ago is not kept, a filter checked six minutes ago is.
\<close>

theorem selectFiltersIdsToUpdate_recency:
  "(i \<in> set (selectFiltersIdsToUpdate e fv now ids)
      \<longleftrightarrow> i \<in> set ids \<and> (isCustomFilter e i
            \<or> (case fv i of None \<Rightarrow> True
                | Some r \<Rightarrow> now - lastCheckTime r > 5 * 60 * 1000)))
   \<and> (i \<in> set ids \<and> isCustomFilter e i
        \<longrightarrow> i \<in> set (selectFiltersIdsToUpdate e fv now ids))
   \<and> (\<not> isCustomFilter e i \<and> fv i = Some r \<and> lastCheckTime r = now - 4 * 60 * 1000
        \<longrightarrow> i \<notin> set (selectFiltersIdsToUpdate e fv now ids))
   \<and> (i \<in> set ids \<and> fv i = Some r \<and> lastCheckTime r = now - 6 * 60 * 1000
        \<longrightarrow> i \<in> set (selectFiltersIdsToUpdate e fv now ids))"
  by (auto simp: selectFiltersIdsToUpdate_def RECENTLY_CHECKED_FILTER_TIMEOUT_MS_def Let_def
      split: option.splits)

theorem selectFiltersIdsToUpdate_recency_witness:
  "1000 \<in> set [1000, 1, 3] \<and> isCustomFilter sampleEnv 1000
   \<and> 1000 \<in> set (selectFiltersIdsToUpdate sampleEnv
        [1000 \<mapsto> sampleRecord 1000000, 1 \<mapsto> sampleRecord (1000000 - 4 * 60 * 1000),
         3 \<mapsto> sampleRecord (1000000 - 6 * 60 * 1000)] 1000000 [1000, 1, 3])
   \<and> \<not> isCustomFilter sampleEnv 1
   \<and> 1 \<notin> set (selectFiltersIdsToUpdate sampleEnv
        [1000 \<mapsto> sampleRecord 1000000, 1 \<mapsto> sampleRecord (1000000 - 4 * 60 * 1000),
         3 \<mapsto> sampleRecord (1000000 - 6 * 60 * 1000)] 1000000 [1000, 1, 3])
   \<and> 3 \<in> set (selectFiltersIdsToUpdate sampleEnv
        [1000 \<mapsto> sampleRecord 1000000, 1 \<mapsto> sampleRecord (1000000 - 4 * 60 * 1000),
         3 \<mapsto> sampleRecord (1000000 - 6 * 60 * 1000)] 1000000 [1000, 1, 3])"
  using selectFiltersIdsToUpdate_recency [of 1000 sampleEnv
      "[1000 \<mapsto> sampleRecord 1000000, 1 \<mapsto> sampleRecord (1000000 - 4 * 60 * 1000),
        3 \<mapsto> sampleRecord (1000000 - 6 * 60 * 1000)]" 1000000 "[1000, 1, 3]"
      "sampleRecord 1000000"]
    selectFiltersIdsToUpdate_recency [of 1 sampleEnv
      "[1000 \<mapsto> sampleRecord 1000000, 1 \<mapsto> sampleRecord (1000000 - 4 * 60 * 1000),
        3 \<mapsto> sampleRecord (1000000 - 6 * 60 * 1000)]" 1000000 "[1000, 1, 3]"
      "sampleRecord (1000000 - 4 * 60 * 1000)"]
    selectFiltersIdsToUpdate_recency [of 3 sampleEnv
      "[1000 \<mapsto> sampleRecord 1000000, 1 \<mapsto> sampleRecord (1000000 - 4 * 60 * 1000),
        3 \<mapsto> sampleRecord (1000000 - 6 * 60 * 1000)]" 1000000 "[1000, 1, 3]"
      "sampleRecord (1000000 - 6 * 60 * 1000)"]
  by (simp add: sampleEnv_def sampleRecord_def)

subsection \<open>The merge of the two selections\<close>

lemma map_of_Map_set: "map_of (Map_set m k v) = (map_of m)(k \<mapsto> v)"
  by (induction m) (auto simp: fun_eq_iff)

lemma keys_Map_set:
  "map fst (Map_set m k v) = (if k \<in> set (map fst m) then map fst m else map fst m @ [k])"
  by (induction m) force+

lemma distinct_Map_set: "distinct (map fst m) \<Longrightarrow> distinct (map fst (Map_set m k v))"
  by (simp add: keys_Map_set)

lemma Map_has_map_of: "Map_has m k \<longleftrightarrow> map_of m k \<noteq> None"
  by (simp add: Map_has_def map_of_eq_None_iff)

lemma set_Map_set: "x \<in> set (Map_set m k v) \<Longrightarrow> x = (k, v) \<or> x \<in> set m"
  by (induction m) (auto split: if_splits)

lemma keyed_uniqueStep: "keyed m \<Longrightarrow> keyed (uniqueStep m f)"
  unfolding keyed_def uniqueStep_def
  by (auto simp: distinct_Map_set dest!: set_Map_set)

lemma keyed_foldl: "keyed m \<Longrightarrow> keyed (foldl uniqueStep m fs)"
  by (induction fs arbitrary: m) (simp_all add: keyed_uniqueStep)

lemma forced_uniqueStep: "forced m i \<Longrightarrow> forced (uniqueStep m f) i"
  by (auto simp: forced_def uniqueStep_def map_of_Map_set Map_has_map_of)

lemma forced_foldl: "forced m i \<Longrightarrow> forced (foldl uniqueStep m fs) i"
  by (induction fs arbitrary: m) (simp_all add: forced_uniqueStep)

lemma forced_uniqueStep_new: "force f \<Longrightarrow> forced (uniqueStep m f) (filterId f)"
  by (simp add: forced_def uniqueStep_def map_of_Map_set)

lemma forced_foldl_mem:
  "f \<in> set fs \<Longrightarrow> force f \<Longrightarrow> forced (foldl uniqueStep m fs) (filterId f)"
proof (induction fs arbitrary: m)
  case Nil
  then show ?case by simp
next
  case (Cons g fs)
  show ?case
  proof (cases "g = f")
    case True
    with Cons.prems forced_foldl [OF forced_uniqueStep_new, of f m fs] show ?thesis by simp
  next
    case False
    with Cons show ?thesis by simp
  qed
qed

lemma keyed_filter:
  "keyed m \<Longrightarrow> map_of m i = Some v \<Longrightarrow> filter (\<lambda>t. filterId t = i) (map snd m) = [v]"
proof (induction m)
  case Nil
  then show ?case by simp
next
  case (Cons kv m)
  obtain k u where kv: "kv = (k, u)" by (cases kv)
  from Cons.prems(1) kv have km: "keyed m" and ku: "filterId u = k" and kn: "k \<notin> fst ` set m"
    and all: "\<forall>(k', v') \<in> set m. filterId v' = k'"
    by (auto simp: keyed_def)
  show ?case
  proof (cases "k = i")
    case True
    with Cons.prems(2) kv have "u = v" by simp
    moreover have "filterId (snd x) \<noteq> i" if "x \<in> set m" for x
      by (cases x) (use that kn all True in force)
    then have "filter (\<lambda>t. filterId t = i) (map snd m) = []"
      by (simp add: filter_empty_conv)
    ultimately show ?thesis using kv ku True by simp
  next
    case False
    with Cons.prems(2) kv have "map_of m i = Some v" by simp
    from Cons.IH [OF km this] show ?thesis using kv ku False by simp
  qed
qed

lemma uniqueFilters_forced:
  assumes "f \<in> set fs" and "force f"
  shows "filter (\<lambda>t. filterId t = filterId f) (uniqueFilters fs)
           = [\<lparr>filterId = filterId f, force = True\<rparr>]"
proof -
  let ?m = "foldl uniqueStep [] fs"
  have k: "keyed ?m" by (rule keyed_foldl) (simp add: keyed_def)
  from forced_foldl_mem [OF assms, of "[]"] obtain v where
    v: "map_of ?m (filterId f) = Some v" "force v"
    by (auto simp: forced_def)
  from k v(1) have "filterId v = filterId f"
    by (auto simp: keyed_def dest!: map_of_SomeD)
  with v(2) have "v = \<lparr>filterId = filterId f, force = True\<rparr>" by (cases v) simp
  with keyed_filter [OF k v(1)] show ?thesis by (simp add: uniqueFilters_def Map_values_def)
qed

text \<open>
  C3. In a cycle of \<open>autoUpdateFilters\<close> that is not forced, an installed filter whose
  version record has \<open>diffPath\<close> set and that is expired yields a task with
  \<open>force = false\<close> in the patch selection and a task with \<open>force = true\<close> in the
  expiry selection, and the merged task list has exactly one task for that filter, with
  \<open>force = true\<close>.
\<close>

theorem merged_task_forced:
  assumes "i \<in> set (installedAndEnabledFiltersIds e)"
    and "hasDiffPath fv i"
    and "isExpired (DEFAULT_FILTERS_UPDATE_PERIOD e) fv now (FiltersUpdatePeriod e) i"
  shows "\<lparr>filterId = i, force = False\<rparr> \<in> set (selectFiltersWithDiffPath fv
             (map (\<lambda>i. \<lparr>filterId = i, force = False\<rparr>) (installedAndEnabledFiltersIds e)))
       \<and> \<lparr>filterId = i, force = True\<rparr> \<in> set (selectExpiredFilters
             (DEFAULT_FILTERS_UPDATE_PERIOD e) fv now
             (map (\<lambda>i. \<lparr>filterId = i, force = False\<rparr>) (installedAndEnabledFiltersIds e))
             (FiltersUpdatePeriod e))
       \<and> filter (\<lambda>t. filterId t = i) (filterUpdateDetailsToUpdate e fv now False)
           = [\<lparr>filterId = i, force = True\<rparr>]"
proof -
  let ?ds = "map (\<lambda>i. \<lparr>filterId = i, force = False\<rparr>) (installedAndEnabledFiltersIds e)"
  let ?ex = "selectExpiredFilters (DEFAULT_FILTERS_UPDATE_PERIOD e) fv now ?ds
               (FiltersUpdatePeriod e)"
  let ?f = "\<lparr>filterId = i, force = True\<rparr>"
  from assms(1,2) have a: "\<lparr>filterId = i, force = False\<rparr> \<in> set (selectFiltersWithDiffPath fv ?ds)"
    by (force simp: selectFiltersWithDiffPath_def)
  from assms(1,3) have b: "?f \<in> set ?ex"
    by (force simp: selectExpiredFilters_def)
  then have "?f \<in> set (selectFiltersWithDiffPath fv ?ds @ ?ex)" by simp
  from uniqueFilters_forced [OF this] have
    "filter (\<lambda>t. filterId t = i) (filterUpdateDetailsToUpdate e fv now False) = [?f]"
    by (simp add: filterUpdateDetailsToUpdate_def Let_def)
  with a b show ?thesis by simp
qed

theorem merged_task_forced_witness:
  "1 \<in> set (installedAndEnabledFiltersIds sampleEnv)
   \<and> hasDiffPath (filterVersions sampleWorld) 1
   \<and> isExpired (DEFAULT_FILTERS_UPDATE_PERIOD sampleEnv) (filterVersions sampleWorld) 4000000
        (FiltersUpdatePeriod sampleEnv) 1
   \<and> filter (\<lambda>t. filterId t = 1)
        (filterUpdateDetailsToUpdate sampleEnv (filterVersions sampleWorld) 4000000 False)
       = [\<lparr>filterId = 1, force = True\<rparr>]"
  using merged_task_forced [of 1 sampleEnv "filterVersions sampleWorld" 4000000]
  by (simp add: sample_defs hasDiffPath_def isExpired_def)

section \<open>Properties of the update cycle\<close>


















lemma sample_tasks:
  "filterUpdateDetailsToUpdate sampleEnv (filterVersions sampleWorld) 5000 False
     = [\<lparr>filterId = 1, force = False\<rparr>, \<lparr>filterId = 2, force = False\<rparr>,
        \<lparr>filterId = 3, force = False\<rparr>]"
  by (simp add: sample_defs selection_defs)



text \<open>
  What \<open>autoUpdateFilters\<close> does after \<open>updateFilters\<close> has returned is not part of
  the above: it refreshes \<open>lastCheckTime\<close> on the records of all the tasks' filters,
  that of a failed task too.
\<close>

lemma sample_autoUpdateFilters_refresh:
  "fst (autoUpdateFilters sampleEnv (\<lambda>i. i) False 5000 6000 sampleWorld) = [1, 3]
   \<and> filterVersions (snd (autoUpdateFilters sampleEnv (\<lambda>i. i) False 5000 6000 sampleWorld)) 2
       = Some (sampleRecord 6000)"
  by (simp add: autoUpdateFilters_def sample_tasks)
     (simp add: sample_defs update_defs)




subsection \<open>The early returns of autoUpdateFilters\<close>

lemma updateTask_settings:
  "updateTask (e\<lparr>DisableFiltering := a, FiltersUpdatePeriod := p\<rparr>) = updateTask e"
  by (simp add: updateTask_def fun_eq_iff)

lemma runUpdateTasks_settings:
  "runUpdateTasks (e\<lparr>DisableFiltering := a, FiltersUpdatePeriod := p\<rparr>) ts w
     = runUpdateTasks e ts w"
  by (induction ts arbitrary: w) (auto simp: updateTask_settings)

lemma updateFilters_settings:
  "updateFilters (e\<lparr>DisableFiltering := a, FiltersUpdatePeriod := p\<rparr>) finish ds w
     = updateFilters e finish ds w"
  by (simp add: updateFilters_def worldBeforeTasks_def shouldLoadMetadata_def
      runUpdateTasks_settings)

text \<open>
  C8. When filtering is disabled or the update period is the setting 'disabled',
  \<open>autoUpdateFilters\<close> without \<open>forceUpdate\<close> returns the empty list and does
  nothing (no task, no refresh, no signal to the engine). With \<open>forceUpdate\<close> it
  proceeds whatever these two settings are: its outcome does not depend on them, and
  what it returns is what \<open>updateFilters\<close> returns for a forced task for every
  installed and enabled filter.
\<close>

theorem autoUpdateFilters_short_circuit:
  "((DisableFiltering e \<or> FiltersUpdatePeriod e = FiltersUpdateTime_Disabled e)
      \<longrightarrow> autoUpdateFilters e finish False now nowR w = ([], w))
   \<and> autoUpdateFilters (e\<lparr>DisableFiltering := a, FiltersUpdatePeriod := p\<rparr>) finish True now nowR w
       = autoUpdateFilters e finish True now nowR w
   \<and> fst (autoUpdateFilters e finish True now nowR w)
       = fst (updateFilters e finish
           (map (\<lambda>i. \<lparr>filterId = i, force = True\<rparr>) (installedAndEnabledFiltersIds e)) w)"
proof -
  have a: "(DisableFiltering e \<or> FiltersUpdatePeriod e = FiltersUpdateTime_Disabled e)
      \<longrightarrow> autoUpdateFilters e finish False now nowR w = ([], w)"
    by (auto simp: autoUpdateFilters_def)
  have b: "autoUpdateFilters (e\<lparr>DisableFiltering := a, FiltersUpdatePeriod := p\<rparr>) finish True now nowR w
       = autoUpdateFilters e finish True now nowR w"
    by (simp add: autoUpdateFilters_def filterUpdateDetailsToUpdate_def updateFilters_settings)
  have c: "fst (autoUpdateFilters e finish True now nowR w)
       = fst (updateFilters e finish
           (map (\<lambda>i. \<lparr>filterId = i, force = True\<rparr>) (installedAndEnabledFiltersIds e)) w)"
    by (simp add: autoUpdateFilters_def filterUpdateDetailsToUpdate_def Let_def split: prod.splits)
  from a b c show ?thesis by simp
qed

theorem autoUpdateFilters_short_circuit_witness:
  "DisableFiltering (sampleEnv\<lparr>DisableFiltering := True\<rparr>)
   \<and> autoUpdateFilters (sampleEnv\<lparr>DisableFiltering := True\<rparr>) (\<lambda>i. i) False 5000 6000 sampleWorld
       = ([], sampleWorld)
   \<and> FiltersUpdatePeriod (sampleEnv\<lparr>FiltersUpdatePeriod := 0\<rparr>)
       = FiltersUpdateTime_Disabled (sampleEnv\<lparr>FiltersUpdatePeriod := 0\<rparr>)
   \<and> autoUpdateFilters (sampleEnv\<lparr>FiltersUpdatePeriod := 0\<rparr>) (\<lambda>i. i) False 5000 6000 sampleWorld
       = ([], sampleWorld)
   \<and> fst (autoUpdateFilters (sampleEnv\<lparr>DisableFiltering := True, FiltersUpdatePeriod := 0\<rparr>)
        (\<lambda>i. i) True 5000 6000 sampleWorld) = [1, 3]"
proof -
  have f: "fst (autoUpdateFilters sampleEnv (\<lambda>i. i) True 5000 6000 sampleWorld) = [1, 3]"
    by (simp add: autoUpdateFilters_def filterUpdateDetailsToUpdate_def)
       (simp add: sample_defs update_defs)
  from autoUpdateFilters_short_circuit [where e = "sampleEnv\<lparr>DisableFiltering := True\<rparr>"
      and finish = "\<lambda>i. i"
      and now = 5000 and nowR = 6000 and w = sampleWorld and a = True and p = 0]
    autoUpdateFilters_short_circuit [where e = "sampleEnv\<lparr>FiltersUpdatePeriod := 0\<rparr>"
      and finish = "\<lambda>i. i"
      and now = 5000 and nowR = 6000 and w = sampleWorld and a = True and p = 0]
    autoUpdateFilters_short_circuit [where e = sampleEnv and finish = "\<lambda>i. i"
      and now = 5000 and nowR = 6000 and w = sampleWorld and a = True and p = 0]
  show ?thesis
    using f by (simp add: sampleEnv_def)
qed

end
